theory Spec2Isabelle
  imports Main "HOL-Library.Char_ord" "HOL-Library.List_Lexorder"
    "HOL-Library.Product_Lexorder" "HOL-Library.Option_ord" "HOL-Library.Multiset"
begin

section \<open>Values and errors of the JavaScript runtime\<close>

text \<open>
  The routes of \<^verbatim>\<open>src/routes/lib/v1/PackageRequest.js\<close> are asynchronous JavaScript.
  A rejected promise or a thrown exception is a value \<open>Inl e\<close> of the sum type, a
  fulfilled promise is \<open>Inr v\<close>.
\<close>

datatype error =
    TypeError
  | ValidationError
  | HTTPError int string
  | ParseError
  | TimeoutError
  | RequestError
  | OctokitError int bool
  | CachedResponse int

text \<open>
  \<^verbatim>\<open>TypeError\<close> is thrown by the runtime and by the semver package;
  \<^verbatim>\<open>ValidationError\<close> is the \<^verbatim>\<open>new Error("Unable to retrieve versions ...")\<close> of
  \<^verbatim>\<open>fetchNpmMetadata\<close>; \<^verbatim>\<open>HTTPError statusCode body\<close>, \<^verbatim>\<open>ParseError\<close>,
  \<^verbatim>\<open>TimeoutError\<close> and \<^verbatim>\<open>RequestError\<close> are the errors of \<^verbatim>\<open>got\<close>;
  \<^verbatim>\<open>OctokitError status block\<close> is a failed GitHub API request with its \<^verbatim>\<open>status\<close> and
  the truthiness of its \<^verbatim>\<open>block\<close> member; \<^verbatim>\<open>CachedResponse s\<close> is the object
  \<^verbatim>\<open>{ response: { statusCode: s } }\<close> that the loaders hand to the cache.
\<close>




text \<open>What \<^verbatim>\<open>getResolvedVersion\<close> can hand back: \<^verbatim>\<open>null\<close>, a string, or a number.\<close>

datatype jsvalue = Null | String string | Number int

section \<open>The semver package, as far as the routes use it\<close>

text \<open>
  Modelled from the spec: the third-party \<^verbatim>\<open>semver\<close> package is not part of the sources.
  Section 4.5 of the specification fixes "standard semantic-version precedence rules
  (numeric comparison of major/minor/patch, pre-release identifiers ordered below any release
  with the same numeric triple)"; the definitions below follow the strict grammar of
  Semantic Versioning 2.0.0 as the package implements it: an optional leading \<^verbatim>\<open>v\<close>, three
  numeric identifiers without leading zeros, an optional pre-release part after \<^verbatim>\<open>-\<close> and
  an optional build part after \<^verbatim>\<open>+\<close>. Numeric identifiers are exact integers here.
\<close>

definition isDigit :: "char \<Rightarrow> bool" where
  "isDigit c = (c \<in> set ''0123456789'')"

definition isLetter :: "char \<Rightarrow> bool" where
  "isLetter c = (c \<in> set ''abcdefghijklmnopqrstuvwxyzABCDEFGHIJKLMNOPQRSTUVWXYZ'')"

definition isIdentChar :: "char \<Rightarrow> bool" where
  "isIdentChar c = (isDigit c \<or> isLetter c \<or> c = CHR ''-'')"

definition digitVal :: "char \<Rightarrow> int" where
  "digitVal c = of_char c - 48"

text \<open>The value of a string of decimal digits (JavaScript's unary \<^verbatim>\<open>+\<close> on it).\<close>

definition toInt :: "string \<Rightarrow> int" where
  "toInt s = foldl (\<lambda>n c. 10 * n + digitVal c) 0 s"

text \<open>The pattern \<^verbatim>\<open>0|[1-9]\d*\<close>.\<close>

definition isNumericIdentifier :: "string \<Rightarrow> bool" where
  "isNumericIdentifier s =
     (s \<noteq> [] \<and> list_all isDigit s \<and> (length s = 1 \<or> hd s \<noteq> CHR ''0''))"

text \<open>The pattern \<^verbatim>\<open>\d*[a-zA-Z-][a-zA-Z0-9-]*\<close>.\<close>

definition isNonNumericIdentifier :: "string \<Rightarrow> bool" where
  "isNonNumericIdentifier s = (list_all isIdentChar s \<and> \<not> list_all isDigit s)"

text \<open>The pattern \<^verbatim>\<open>[0-9A-Za-z-]+\<close> of a build identifier.\<close>

definition isBuildIdentifier :: "string \<Rightarrow> bool" where
  "isBuildIdentifier s = (s \<noteq> [] \<and> list_all isIdentChar s)"

text \<open>\<^verbatim>\<open>String.prototype.split\<close> with a one-character separator.\<close>

fun split :: "char \<Rightarrow> string \<Rightarrow> string list" where
  "split c [] = [] # []"
| "split c (x # xs) =
     (if x = c then [] # split c xs
      else (case split c xs of [] \<Rightarrow> [x] # [] | y # ys \<Rightarrow> (x # y) # ys))"

datatype ident = Num int | Alnum string

record SemVer =
  major :: int
  minor :: int
  patch :: int
  prerelease :: "ident list"
  build :: "string list"

definition MAX_LENGTH :: nat where
  "MAX_LENGTH = 256"

definition MAX_SAFE_INTEGER :: int where
  "MAX_SAFE_INTEGER = 9007199254740991"

definition toIdent :: "string \<Rightarrow> ident" where
  "toIdent s = (if s \<noteq> [] \<and> list_all isDigit s then Num (toInt s) else Alnum s)"

text \<open>
  \<^verbatim>\<open>semver.parse\<close> in strict mode: \<open>None\<close> is the package's \<^verbatim>\<open>null\<close>. The string is cut
  at the first \<^verbatim>\<open>+\<close> (build identifiers cannot contain one) and what precedes at the
  first \<^verbatim>\<open>-\<close> (the numeric core cannot contain one).
\<close>

definition parse :: "string \<Rightarrow> SemVer option" where
  "parse version =
     (if length version > MAX_LENGTH then None
      else
        let s = (case version of c # r \<Rightarrow> if c = CHR ''v'' then r else version | [] \<Rightarrow> version);
            beforePlus = takeWhile (\<lambda>c. c \<noteq> CHR ''+'') s;
            afterPlus = dropWhile (\<lambda>c. c \<noteq> CHR ''+'') s;
            core = takeWhile (\<lambda>c. c \<noteq> CHR ''-'') beforePlus;
            afterDash = dropWhile (\<lambda>c. c \<noteq> CHR ''-'') beforePlus;
            pre = (if afterDash = [] then [] else split (CHR ''.'') (tl afterDash));
            bld = (if afterPlus = [] then [] else split (CHR ''.'') (tl afterPlus))
        in
          (case split (CHR ''.'') core of
             [a, b, c] \<Rightarrow>
               if isNumericIdentifier a \<and> isNumericIdentifier b \<and> isNumericIdentifier c
                  \<and> list_all (\<lambda>i. isNumericIdentifier i \<or> isNonNumericIdentifier i) pre
                  \<and> list_all isBuildIdentifier bld
                  \<and> toInt a \<le> MAX_SAFE_INTEGER \<and> toInt b \<le> MAX_SAFE_INTEGER
                  \<and> toInt c \<le> MAX_SAFE_INTEGER
               then Some \<lparr>major = toInt a, minor = toInt b, patch = toInt c,
                          prerelease = map toIdent pre, build = bld\<rparr>
               else None
           | _ \<Rightarrow> None))"

text \<open>
  \<^verbatim>\<open>semver.valid(v)\<close> returns the normalised version or \<^verbatim>\<open>null\<close>; the routes only test
  its truthiness, and a normalised version is never the empty string.
\<close>

definition valid :: "string \<Rightarrow> bool" where
  "valid v = (parse v \<noteq> None)"

text \<open>
  \<^verbatim>\<open>semver.prerelease(v)\<close>: the pre-release identifiers, or \<^verbatim>\<open>null\<close> when the version is
  invalid or has none.
\<close>

definition prerelease_of :: "string \<Rightarrow> ident list option" where
  "prerelease_of v =
     (case parse v of
        None \<Rightarrow> None
      | Some sv \<Rightarrow> if prerelease sv = [] then None else Some (prerelease sv))"

fun compareIdentifiers :: "ident \<Rightarrow> ident \<Rightarrow> int" where
  "compareIdentifiers (Num a) (Num b) = (if a = b then 0 else if a < b then - 1 else 1)"
| "compareIdentifiers (Num a) (Alnum b) = - 1"
| "compareIdentifiers (Alnum a) (Num b) = 1"
| "compareIdentifiers (Alnum a) (Alnum b) = (if a = b then 0 else if a < b then - 1 else 1)"

definition compareNum :: "int \<Rightarrow> int \<Rightarrow> int" where
  "compareNum a b = (if a = b then 0 else if a < b then - 1 else 1)"

definition compareMain :: "SemVer \<Rightarrow> SemVer \<Rightarrow> int" where
  "compareMain x y =
     (if compareNum (major x) (major y) \<noteq> 0 then compareNum (major x) (major y)
      else if compareNum (minor x) (minor y) \<noteq> 0 then compareNum (minor x) (minor y)
      else compareNum (patch x) (patch y))"

fun comparePreLoop :: "ident list \<Rightarrow> ident list \<Rightarrow> int" where
  "comparePreLoop [] [] = 0"
| "comparePreLoop (a # as) [] = 1"
| "comparePreLoop [] (b # bs) = - 1"
| "comparePreLoop (a # as) (b # bs) =
     (if a = b then comparePreLoop as bs else compareIdentifiers a b)"

definition comparePre :: "SemVer \<Rightarrow> SemVer \<Rightarrow> int" where
  "comparePre x y =
     (if prerelease x \<noteq> [] \<and> prerelease y = [] then - 1
      else if prerelease x = [] \<and> prerelease y \<noteq> [] then 1
      else if prerelease x = [] \<and> prerelease y = [] then 0
      else comparePreLoop (prerelease x) (prerelease y))"

definition compare :: "SemVer \<Rightarrow> SemVer \<Rightarrow> int" where
  "compare x y = (if compareMain x y \<noteq> 0 then compareMain x y else comparePre x y)"

text \<open>
  \<^verbatim>\<open>semver.rcompare(a, b) = compare(b, a)\<close> on strings; constructing a version from an
  invalid string throws a \<^verbatim>\<open>TypeError\<close>.
\<close>

definition rcompare :: "string \<Rightarrow> string \<Rightarrow> error + int" where
  "rcompare a b =
     (case (parse a, parse b) of
        (Some x, Some y) \<Rightarrow> Inr (compare y x)
      | _ \<Rightarrow> Inl TypeError)"

section \<open>Sorting an array with a comparator\<close>

text \<open>
  \<^verbatim>\<open>Array.prototype.sort(cmp)\<close> with the comparator \<^verbatim>\<open>semver.rcompare\<close>, which throws on a
  string that is no version and orders the others. A comparator that throws aborts the
  sort with its error, and an array of fewer than two elements is never compared. For
  such a comparator the language fixes what the sort does whatever algorithm the engine
  runs: two or more elements with one that makes the comparator throw end in that error,
  since every element of such an array is compared at least once; otherwise the result is
  the one stable arrangement in order. The insertion sort below computes it: an element
  goes in front of the first element it does not compare greater than. The lemma
  \<open>sort_js_rcompare_stable\<close> states that nothing else of the algorithm shows.

  This function is not used for the comparator of \<^verbatim>\<open>v-compare\<close>, of which the sources
  tell nothing: see \<open>sortContract\<close> below.
\<close>

fun insert_js :: "('a \<Rightarrow> 'a \<Rightarrow> error + int) \<Rightarrow> 'a \<Rightarrow> 'a list \<Rightarrow> error + 'a list" where
  "insert_js cmp x [] = Inr [x]"
| "insert_js cmp x (y # ys) =
     (case cmp x y of
        Inl e \<Rightarrow> Inl e
      | Inr c \<Rightarrow>
          if c \<le> 0 then Inr (x # y # ys)
          else (case insert_js cmp x ys of Inl e \<Rightarrow> Inl e | Inr r \<Rightarrow> Inr (y # r)))"

fun sort_js :: "('a \<Rightarrow> 'a \<Rightarrow> error + int) \<Rightarrow> 'a list \<Rightarrow> error + 'a list" where
  "sort_js cmp [] = Inr []"
| "sort_js cmp (x # xs) =
     (case sort_js cmp xs of Inl e \<Rightarrow> Inl e | Inr r \<Rightarrow> insert_js cmp x r)"


definition rearranges :: "((string \<Rightarrow> string \<Rightarrow> int) \<Rightarrow> string list \<Rightarrow> string list) \<Rightarrow> bool" where
  "rearranges arraySort = (\<forall>cmp xs. mset (arraySort cmp xs) = mset xs)"



section \<open>Metadata documents\<close>

text \<open>
  The object both fetchers return: \<^verbatim>\<open>{ tags, versions }\<close>. For npm \<^verbatim>\<open>tags\<close> is whatever
  the registry sent under \<^verbatim>\<open>dist-tags\<close> (an object from tag to version, or \<^verbatim>\<open>undefined\<close>
  when the body has no such member); for GitHub it is the empty array literal \<^verbatim>\<open>[]\<close>.
\<close>

datatype tagmap = Undefined | Object "string \<rightharpoonup> string" | EmptyArray

record metadata =
  tags :: tagmap
  versions :: "string list"

text \<open>
  \<^verbatim>\<open>{}.hasOwnProperty.call(tags, key)\<close> followed by \<^verbatim>\<open>tags[key]\<close>: the value of the own
  property \<open>key\<close>, \<open>None\<close> when there is no such own property. On \<^verbatim>\<open>undefined\<close> the call
  throws a \<^verbatim>\<open>TypeError\<close>. An array owns the property \<^verbatim>\<open>length\<close>, and the empty array
  owns no index.
\<close>

definition ownProperty :: "tagmap \<Rightarrow> string \<Rightarrow> error + jsvalue option" where
  "ownProperty t key =
     (case t of
        Undefined \<Rightarrow> Inl TypeError
      | Object m \<Rightarrow> Inr (map_option String (m key))
      | EmptyArray \<Rightarrow> Inr (if key = ''length'' then Some (Number 0) else None))"

section \<open>Resolving a version\<close>

text \<open>
  \<^verbatim>\<open>semver.maxSatisfying(versions, range)\<close>. The constructor of a range is the parameter
  \<open>mkRange\<close>: \<open>None\<close> when it throws (the package catches that and returns \<^verbatim>\<open>null\<close>),
  otherwise the test of the range on a parsed version. The loop keeps the first
  greatest satisfying version.
\<close>

definition rangeTest :: "(SemVer \<Rightarrow> bool) \<Rightarrow> string \<Rightarrow> bool" where
  "rangeTest t v = (case parse v of None \<Rightarrow> False | Some sv \<Rightarrow> t sv)"

definition isBelow :: "string \<Rightarrow> string \<Rightarrow> bool" where
  "isBelow m v =
     (case (parse m, parse v) of (Some a, Some b) \<Rightarrow> compare a b = - 1 | _ \<Rightarrow> False)"

fun maxSatisfyingLoop :: "(SemVer \<Rightarrow> bool) \<Rightarrow> string list \<Rightarrow> string option \<Rightarrow> string option" where
  "maxSatisfyingLoop t [] mx = mx"
| "maxSatisfyingLoop t (v # vs) mx =
     maxSatisfyingLoop t vs
       (if rangeTest t v then
          (case mx of
             None \<Rightarrow> Some v
           | Some m \<Rightarrow> if m = [] \<or> isBelow m v then Some v else Some m)
        else mx)"

definition maxSatisfying ::
  "(string \<Rightarrow> (SemVer \<Rightarrow> bool) option) \<Rightarrow> string list \<Rightarrow> string \<Rightarrow> jsvalue" where
  "maxSatisfying mkRange vs rng =
     (case mkRange rng of
        None \<Rightarrow> Null
      | Some t \<Rightarrow> (case maxSatisfyingLoop t vs None of None \<Rightarrow> Null | Some v \<Rightarrow> String v))"

text \<open>
  The candidates of \<^verbatim>\<open>getResolvedVersion\<close>:
  \<^verbatim>\<open>metadata.versions.filter(v => semver.valid(v) && !semver.prerelease(v)).sort(semver.rcompare)\<close>;
  \<open>isRelease\<close> is the predicate of the filter.
\<close>

definition isRelease :: "string \<Rightarrow> bool" where
  "isRelease v = (valid v \<and> prerelease_of v = None)"

definition candidates :: "metadata \<Rightarrow> error + string list" where
  "candidates md = sort_js rcompare (filter isRelease (versions md))"

text \<open>\<^verbatim>\<open>versions[0] || null\<close>: an absent or empty first element gives \<^verbatim>\<open>null\<close>.\<close>

definition firstOrNull :: "string list \<Rightarrow> jsvalue" where
  "firstOrNull vs = (case vs of [] \<Rightarrow> Null | v # _ \<Rightarrow> if v = [] then Null else String v)"

text \<open>
  \<^verbatim>\<open>PackageRequest.getResolvedVersion\<close>, on the metadata the fetch resolved with and the
  requested \<^verbatim>\<open>this.params.version\<close>.
\<close>

definition getResolvedVersion ::
  "(string \<Rightarrow> (SemVer \<Rightarrow> bool) option) \<Rightarrow> metadata \<Rightarrow> string \<Rightarrow> error + jsvalue" where
  "getResolvedVersion mkRange md version =
     (case candidates md of
        Inl e \<Rightarrow> Inl e
      | Inr vs \<Rightarrow>
          if version \<in> set (versions md) then Inr (String version)
          else
            (case ownProperty (tags md) version of
               Inl e \<Rightarrow> Inl e
             | Inr (Some t) \<Rightarrow> Inr t
             | Inr None \<Rightarrow>
                 if version = ''latest'' \<or> version = [] then Inr (firstOrNull vs)
                 else Inr (maxSatisfying mkRange vs version)))"

section \<open>A fragment of the range grammar\<close>

text \<open>
  Modelled from the spec: the range grammar of the \<^verbatim>\<open>semver\<close> package is not part of the
  sources. \<open>simpleRange\<close> covers the comparator sets used in the examples: comparators
  separated by one space, each an optional operator (\<^verbatim>\<open>=\<close>, \<^verbatim>\<open><\<close>, \<^verbatim>\<open><=\<close>, \<^verbatim>\<open>>\<close>,
  \<^verbatim>\<open>>=\<close>, \<^verbatim>\<open>^\<close>, \<^verbatim>\<open>~\<close>) followed by a full release version. Everything else is
  outside the fragment (\<open>None\<close>). A version with a pre-release part satisfies no such
  range. The general theorems hold for every range constructor; only the examples use
  this one.
\<close>

definition caretUpper :: "SemVer \<Rightarrow> SemVer" where
  "caretUpper sv =
     (if major sv \<noteq> 0 then sv\<lparr>major := major sv + 1, minor := 0, patch := 0\<rparr>
      else if minor sv \<noteq> 0 then sv\<lparr>minor := minor sv + 1, patch := 0\<rparr>
      else sv\<lparr>patch := patch sv + 1\<rparr>)"

definition tildeUpper :: "SemVer \<Rightarrow> SemVer" where
  "tildeUpper sv = sv\<lparr>minor := minor sv + 1, patch := 0\<rparr>"

definition parseComparator :: "string \<Rightarrow> (SemVer \<Rightarrow> bool) option" where
  "parseComparator s =
     (let oper = takeWhile (\<lambda>c. c \<in> set ''<>=^~'') s;
          v = dropWhile (\<lambda>c. c \<in> set ''<>=^~'') s
      in (case parse v of
            None \<Rightarrow> None
          | Some sv \<Rightarrow>
              if prerelease sv \<noteq> [] \<or> build sv \<noteq> [] \<or> take 1 v = ''v'' then None
              else if oper = [] \<or> oper = ''='' then Some (\<lambda>x. compare x sv = 0)
              else if oper = ''<'' then Some (\<lambda>x. compare x sv < 0)
              else if oper = ''<='' then Some (\<lambda>x. compare x sv \<le> 0)
              else if oper = ''>'' then Some (\<lambda>x. compare x sv > 0)
              else if oper = ''>='' then Some (\<lambda>x. compare x sv \<ge> 0)
              else if oper = ''^'' then
                Some (\<lambda>x. compare x sv \<ge> 0 \<and> compare x (caretUpper sv) < 0)
              else if oper = ''~'' then
                Some (\<lambda>x. compare x sv \<ge> 0 \<and> compare x (tildeUpper sv) < 0)
              else None))"

fun allComparators :: "string list \<Rightarrow> (SemVer \<Rightarrow> bool) list option" where
  "allComparators [] = Some []"
| "allComparators (s # ss) =
     (case parseComparator s of
        None \<Rightarrow> None
      | Some t \<Rightarrow> (case allComparators ss of None \<Rightarrow> None | Some ts \<Rightarrow> Some (t # ts)))"

definition simpleRange :: "string \<Rightarrow> (SemVer \<Rightarrow> bool) option" where
  "simpleRange rng =
     (case allComparators (split (CHR '' '') rng) of
        None \<Rightarrow> None
      | Some ts \<Rightarrow> Some (\<lambda>x. prerelease x = [] \<and> list_all (\<lambda>t. t x) ts))"

section \<open>The shared promise cache\<close>

text \<open>
  Modelled from the spec: \<^verbatim>\<open>lib/promise-cache-shared\<close> is not part of the sources.
  Section 4.1: \<^verbatim>\<open>get(key, loader, defaultMaxAge)\<close> returns a settled, unexpired entry
  without invoking the loader; otherwise it invokes the loader, which may call the
  override \<^verbatim>\<open>cache(value, maxAge)\<close>. An override stores its value (a negative result:
  later callers fail with it) under its own TTL, or under \<open>defaultMaxAge\<close> when it
  names none; a loader that resolves without override is stored as a success under
  \<open>defaultMaxAge\<close>; a loader that fails without override leaves no entry. An entry is
  visible while \<open>now < expiresAt\<close>. Calls are modelled one after the other, at the
  time \<open>now\<close>; single-flight sharing among concurrent callers is not modelled.
\<close>

datatype 'v entry = Entry (content: "error + 'v") (expiresAt: int)

text \<open>
  What one invocation of a loader does: its calls of the override, in order, each with
  the value and the optional TTL, and how its promise settles.
\<close>

record 'v loaderRun =
  overrides :: "(error \<times> int option) list"
  outcome :: "error + 'v"

record 'v cacheResult =
  cache :: "string \<rightharpoonup> 'v entry"
  loaderInvoked :: bool
  settled :: "error + 'v"

definition cacheMiss ::
  "(string \<rightharpoonup> 'v entry) \<Rightarrow> int \<Rightarrow> string \<Rightarrow> 'v loaderRun \<Rightarrow> int \<Rightarrow> 'v cacheResult" where
  "cacheMiss c now key run defaultMaxAge =
     (case overrides run of
        (v, ttl) # _ \<Rightarrow>
          \<lparr>cache = c(key \<mapsto> Entry (Inl v)
                     (now + (case ttl of None \<Rightarrow> defaultMaxAge | Some t \<Rightarrow> t))),
           loaderInvoked = True, settled = outcome run\<rparr>
      | [] \<Rightarrow>
          (case outcome run of
             Inr x \<Rightarrow>
               \<lparr>cache = c(key \<mapsto> Entry (Inr x) (now + defaultMaxAge)),
                loaderInvoked = True, settled = Inr x\<rparr>
           | Inl e \<Rightarrow> \<lparr>cache = c(key := None), loaderInvoked = True, settled = Inl e\<rparr>))"

definition cacheGet ::
  "(string \<rightharpoonup> 'v entry) \<Rightarrow> int \<Rightarrow> string \<Rightarrow> 'v loaderRun \<Rightarrow> int \<Rightarrow> 'v cacheResult" where
  "cacheGet c now key run defaultMaxAge =
     (case c key of
        None \<Rightarrow> cacheMiss c now key run defaultMaxAge
      | Some en \<Rightarrow>
          if now < expiresAt en
          then \<lparr>cache = c, loaderInvoked = False, settled = content en\<rparr>
          else cacheMiss c now key run defaultMaxAge)"

section \<open>Tags of a GitHub repository\<close>

text \<open>The \<^verbatim>\<open>forEach\<close> of \<^verbatim>\<open>fetchGitHubMetadata\<close>: one leading \<^verbatim>\<open>v\<close> is cut off.\<close>

definition stripV :: "string \<Rightarrow> string" where
  "stripV name = (case name of [] \<Rightarrow> name | c # r \<Rightarrow> if c = CHR ''v'' then r else name)"

text \<open>\<^verbatim>\<open>_.uniq\<close>: the first occurrence of every element, in order.\<close>

fun uniqFrom :: "'a list \<Rightarrow> 'a list \<Rightarrow> 'a list" where
  "uniqFrom seen [] = []"
| "uniqFrom seen (x # xs) =
     (if x \<in> set seen then uniqFrom seen xs else x # uniqFrom (x # seen) xs)"

definition uniq :: "'a list \<Rightarrow> 'a list" where
  "uniq xs = uniqFrom [] xs"

text \<open>
  The \<^verbatim>\<open>then\<close> handler, on the names of the tags that \<^verbatim>\<open>paginate\<close> resolved with:
  \<^verbatim>\<open>{ tags: [], versions: _.uniq(_.map(data, 'name').filter(v => v).sort(vCompare.rCompare)) }\<close>.
  The comparator of the third-party \<^verbatim>\<open>v-compare\<close> package is the parameter \<open>rCompare\<close>,
  and the engine's \<^verbatim>\<open>sort\<close> is the parameter \<open>arraySort\<close>.
\<close>

definition githubDocument ::
  "((string \<Rightarrow> string \<Rightarrow> int) \<Rightarrow> string list \<Rightarrow> string list) \<Rightarrow> (string \<Rightarrow> string \<Rightarrow> int)
     \<Rightarrow> string list \<Rightarrow> error + metadata" where
  "githubDocument arraySort rCompare names =
     Inr \<lparr>tags = EmptyArray,
          versions = uniq (arraySort rCompare (filter (\<lambda>v. v \<noteq> []) (map stripV names)))\<rparr>"

text \<open>
  What the loader does besides settling: the override calls and the lines it logs.
\<close>

record 'v loaderLog =
  run :: "'v loaderRun"
  logged :: "string list"




section \<open>Metadata of an npm package\<close>














section \<open>The file listing\<close>

text \<open>
  \<^verbatim>\<open>promiseRetry(fn, { retries: 2 })\<close> of the third-party \<^verbatim>\<open>promise-retry\<close> package: an
  attempt either settles, or asks for a retry with an error; a retry asked for when none
  is left rejects with that error. The result comes with the number of attempts made.
\<close>

datatype 'r step = Done "error + 'r" | Retry error

fun promiseRetry :: "(nat \<Rightarrow> 'r step) \<Rightarrow> nat \<Rightarrow> nat \<Rightarrow> nat \<times> (error + 'r)" where
  "promiseRetry fn n 0 = (case fn n of Done r \<Rightarrow> (1, r) | Retry e \<Rightarrow> (1, Inl e))"
| "promiseRetry fn n (Suc retries) =
     (case fn n of
        Done r \<Rightarrow> (1, r)
      | Retry e \<Rightarrow> (case promiseRetry fn (Suc n) retries of (m, r) \<Rightarrow> (Suc m, r)))"

text \<open>The options of every request: \<^verbatim>\<open>{ json: true, timeout: 30000 }\<close>.\<close>

record request =
  url :: string
  json :: bool
  timeout :: int

text \<open>A JSON object as the list of its members; \<^verbatim>\<open>_.pick(body, ['default', 'files'])\<close>.\<close>

definition pick :: "(string \<times> string) list \<Rightarrow> string list \<Rightarrow> (string \<times> string) list" where
  "pick body keys =
     concat (map (\<lambda>k. case map_of body k of None \<Rightarrow> [] | Some v \<Rightarrow> [(k, v)]) keys)"

datatype fetchResult = Listing "(string \<times> string) list" | Negative int string

text \<open>One attempt of \<^verbatim>\<open>fetchFiles\<close>: the \<^verbatim>\<open>then\<close> and the \<^verbatim>\<open>catch\<close> handler.\<close>

definition fetchAttempt :: "error + (string \<times> string) list \<Rightarrow> fetchResult step" where
  "fetchAttempt response =
     (case response of
        Inr body \<Rightarrow> Done (Inr (Listing (pick body [''default'', ''files''])))
      | Inl e \<Rightarrow>
          (case e of
             HTTPError s b \<Rightarrow> if s = 403 then Done (Inr (Negative s b)) else Done (Inl e)
           | ParseError \<Rightarrow> Retry e
           | _ \<Rightarrow> Done (Inl e)))"


text \<open>
  The loader of \<^verbatim>\<open>fetchFiles\<close>: \<open>got rq n\<close> is how the \<open>n\<close>-th request settles. It
  returns the requests made and the result.
\<close>

definition filesLoader ::
  "(request \<Rightarrow> nat \<Rightarrow> error + (string \<times> string) list) \<Rightarrow> request
     \<Rightarrow> request list \<times> (error + fetchResult)" where
  "filesLoader got rq =
     (case promiseRetry (\<lambda>n. fetchAttempt (got rq n)) 0 2 of
        (m, r) \<Rightarrow> (replicate m rq, r))"

definition fetchFiles ::
  "(string \<rightharpoonup> fetchResult entry) \<Rightarrow> int \<Rightarrow> int
     \<Rightarrow> (request \<Rightarrow> nat \<Rightarrow> error + (string \<times> string) list) \<Rightarrow> request
     \<Rightarrow> fetchResult cacheResult" where
  "fetchFiles c now defaultMaxAge got rq =
     cacheGet c now (url rq) \<lparr>overrides = [], outcome = snd (filesLoader got rq)\<rparr> defaultMaxAge"

section \<open>The documents of the examples\<close>

text \<open>
  The document of the specification's example of version resolution:
  \<^verbatim>\<open>versions = ["2.0.0","1.9.9","1.0.0-beta"]\<close>, \<^verbatim>\<open>tags = {"latest":"2.0.0"}\<close>.
\<close>

definition exampleDocument :: metadata where
  "exampleDocument =
     \<lparr>tags = Object [''latest'' \<mapsto> ''2.0.0''],
      versions = [''2.0.0'', ''1.9.9'', ''1.0.0-beta'']\<rparr>"

section \<open>The order behind the comparators\<close>

text \<open>
  \<open>precedes a b\<close>: \<^verbatim>\<open>semver.rcompare(a, b)\<close> returns a number that is not positive, so a
  sort with this comparator may leave \<open>a\<close> in front of \<open>b\<close>: \<open>a\<close> has the same or a
  higher precedence.
\<close>

definition precedes :: "string \<Rightarrow> string \<Rightarrow> bool" where
  "precedes a b = (case rcompare a b of Inl e \<Rightarrow> False | Inr c \<Rightarrow> c \<le> 0)"

text \<open>
  Keys that carry the precedence of identifiers and versions into the lexicographic
  orders of the library; they serve the proofs only.
\<close>

definition identKey :: "ident \<Rightarrow> nat \<times> int \<times> string" where
  "identKey i = (case i of Num n \<Rightarrow> (0, n, []) | Alnum s \<Rightarrow> (1, 0, s))"

definition verKey :: "SemVer \<Rightarrow> int \<times> int \<times> int \<times> nat \<times> (nat \<times> int \<times> string) list" where
  "verKey sv = (major sv, minor sv, patch sv, (if prerelease sv = [] then 1 else 0),
                map identKey (prerelease sv))"

definition strKey ::
  "string \<Rightarrow> (int \<times> int \<times> int \<times> nat \<times> (nat \<times> int \<times> string) list) option" where
  "strKey v = map_option verKey (parse v)"


text \<open>
  A comparator for the examples, in place of the one of \<^verbatim>\<open>v-compare\<close>: strings in
  descending lexicographic order.
\<close>

definition reverseLexicographic :: "string \<Rightarrow> string \<Rightarrow> int" where
  "reverseLexicographic a b = (if a = b then 0 else if b < a then - 1 else 1)"

text \<open>
  A comparator that is not consistent: it ranks \<^verbatim>\<open>a\<close> before \<^verbatim>\<open>b\<close>, \<^verbatim>\<open>b\<close> before
  \<^verbatim>\<open>c\<close> and \<^verbatim>\<open>c\<close> before \<^verbatim>\<open>a\<close>.
\<close>

definition cyclicComparator :: "string \<Rightarrow> string \<Rightarrow> int" where
  "cyclicComparator a b =
     (if a = b then 0
      else if (a, b) \<in> {(''a'', ''b''), (''b'', ''c''), (''c'', ''a'')} then - 1 else 1)"

text \<open>
  A sort for the examples, in place of the engine's: an insertion sort. It keeps the
  contract \<open>sortContract\<close> (lemma \<open>insertionSort_contract\<close>).
\<close>

fun insertBefore :: "(string \<Rightarrow> string \<Rightarrow> int) \<Rightarrow> string \<Rightarrow> string list \<Rightarrow> string list" where
  "insertBefore cmp x [] = [x]"
| "insertBefore cmp x (y # ys) =
     (if cmp x y \<le> 0 then x # y # ys else y # insertBefore cmp x ys)"

fun insertionSort :: "(string \<Rightarrow> string \<Rightarrow> int) \<Rightarrow> string list \<Rightarrow> string list" where
  "insertionSort cmp [] = []"
| "insertionSort cmp (x # xs) = insertBefore cmp x (insertionSort cmp xs)"











section \<open>Sorting: general facts\<close>

lemma insert_js_sorted:
  assumes "\<And>y. y \<in> set ys \<Longrightarrow> \<exists>c. cmp x y = Inr c \<and> (c \<le> 0 \<longleftrightarrow> P x y)"
    and "sorted_wrt P ys"
    and "\<And>y. y \<in> set ys \<Longrightarrow> P x y \<or> P y x"
    and "\<And>y z. y \<in> set ys \<Longrightarrow> z \<in> set ys \<Longrightarrow> P x y \<Longrightarrow> P y z \<Longrightarrow> P x z"
  shows "\<exists>r. insert_js cmp x ys = Inr r \<and> mset r = add_mset x (mset ys) \<and> sorted_wrt P r"
  using assms
proof (induction ys)
  case Nil
  then show ?case by simp
next
  case (Cons y ys)
  have yin: "y \<in> set (y # ys)" by simp
  have sub: "\<And>z. z \<in> set ys \<Longrightarrow> z \<in> set (y # ys)" by simp
  from Cons.prems(1)[OF yin] obtain c where c: "cmp x y = Inr c" "c \<le> 0 \<longleftrightarrow> P x y" by blast
  have sy: "\<forall>z\<in>set ys. P y z" and sys: "sorted_wrt P ys" using Cons.prems(2) by simp_all
  show ?case
  proof (cases "c \<le> 0")
    case True
    then have pxy: "P x y" using c(2) by blast
    have "\<forall>z\<in>set ys. P x z"
    proof
      fix z assume z: "z \<in> set ys"
      then have "P y z" using sy by blast
      then show "P x z" using Cons.prems(4)[OF yin sub[OF z] pxy] by blast
    qed
    then have "sorted_wrt P (x # y # ys)" using pxy sy sys by simp
    moreover have "insert_js cmp x (y # ys) = Inr (x # y # ys)" by (simp add: c(1) True)
    moreover have "mset (x # y # ys) = add_mset x (mset (y # ys))" by simp
    ultimately show ?thesis by blast
  next
    case False
    then have "\<not> P x y" using c(2) by blast
    then have pyx: "P y x" using Cons.prems(3)[OF yin] by blast
    have "\<exists>r. insert_js cmp x ys = Inr r \<and> mset r = add_mset x (mset ys) \<and> sorted_wrt P r"
    proof (rule Cons.IH)
      show "\<And>y. y \<in> set ys \<Longrightarrow> \<exists>c. cmp x y = Inr c \<and> (c \<le> 0) = P x y"
        using Cons.prems(1)[OF sub] by blast
      show "sorted_wrt P ys" by (rule sys)
      show "\<And>y. y \<in> set ys \<Longrightarrow> P x y \<or> P y x" using Cons.prems(3)[OF sub] by blast
      show "\<And>y z. y \<in> set ys \<Longrightarrow> z \<in> set ys \<Longrightarrow> P x y \<Longrightarrow> P y z \<Longrightarrow> P x z"
        using Cons.prems(4)[OF sub sub] by blast
    qed
    then obtain r where r: "insert_js cmp x ys = Inr r" "mset r = add_mset x (mset ys)" "sorted_wrt P r"
      by blast
    have "set_mset (mset r) = set_mset (add_mset x (mset ys))" by (simp only: r(2))
    then have "set r = insert x (set ys)" by simp
    then have "\<forall>z\<in>set r. P y z" using pyx sy by simp
    then have "sorted_wrt P (y # r)" using r(3) by simp
    moreover have "insert_js cmp x (y # ys) = Inr (y # r)" by (simp add: c(1) False r(1))
    moreover have "mset (y # r) = add_mset x (mset (y # ys))" by (simp add: r(2))
    ultimately show ?thesis by blast
  qed
qed

lemma sort_js_sorted:
  assumes cmp: "\<And>a b. a \<in> set xs \<Longrightarrow> b \<in> set xs \<Longrightarrow> \<exists>c. cmp a b = Inr c \<and> (c \<le> 0 \<longleftrightarrow> P a b)"
    and total: "\<And>a b. a \<in> set xs \<Longrightarrow> b \<in> set xs \<Longrightarrow> P a b \<or> P b a"
    and trans: "\<And>a b c. a \<in> set xs \<Longrightarrow> b \<in> set xs \<Longrightarrow> c \<in> set xs \<Longrightarrow> P a b \<Longrightarrow> P b c \<Longrightarrow> P a c"
  shows "\<exists>r. sort_js cmp xs = Inr r \<and> mset r = mset xs \<and> sorted_wrt P r"
  using assms
proof (induction xs)
  case Nil
  show ?case by simp
next
  case (Cons x xs)
  have xin: "x \<in> set (x # xs)" by simp
  have sub: "\<And>z. z \<in> set xs \<Longrightarrow> z \<in> set (x # xs)" by simp
  have "\<exists>r. sort_js cmp xs = Inr r \<and> mset r = mset xs \<and> sorted_wrt P r"
  proof (rule Cons.IH)
    fix a b assume ab: "a \<in> set xs" "b \<in> set xs"
    show "\<exists>c. cmp a b = Inr c \<and> (c \<le> 0) = P a b"
      by (rule Cons.prems(1)[OF sub[OF ab(1)] sub[OF ab(2)]])
    show "P a b \<or> P b a"
      by (rule Cons.prems(2)[OF sub[OF ab(1)] sub[OF ab(2)]])
  next
    fix a b c assume abc: "a \<in> set xs" "b \<in> set xs" "c \<in> set xs" "P a b" "P b c"
    show "P a c"
      by (rule Cons.prems(3)[OF sub[OF abc(1)] sub[OF abc(2)] sub[OF abc(3)] abc(4) abc(5)])
  qed
  then obtain r where r: "sort_js cmp xs = Inr r" "mset r = mset xs" "sorted_wrt P r" by blast
  have "set_mset (mset r) = set_mset (mset xs)" by (simp only: r(2))
  then have s: "set r = set xs" by simp
  have sub': "\<And>z. z \<in> set r \<Longrightarrow> z \<in> set (x # xs)" by (simp add: s)
  have "\<exists>q. insert_js cmp x r = Inr q \<and> mset q = add_mset x (mset r) \<and> sorted_wrt P q"
  proof (rule insert_js_sorted)
    show "sorted_wrt P r" by (rule r(3))
  next
    fix y assume y: "y \<in> set r"
    show "\<exists>c. cmp x y = Inr c \<and> (c \<le> 0) = P x y"
      by (rule Cons.prems(1)[OF xin sub'[OF y]])
    show "P x y \<or> P y x"
      by (rule Cons.prems(2)[OF xin sub'[OF y]])
  next
    fix y z assume yz: "y \<in> set r" "z \<in> set r" "P x y" "P y z"
    show "P x z"
      by (rule Cons.prems(3)[OF xin sub'[OF yz(1)] sub'[OF yz(2)] yz(3) yz(4)])
  qed
  then obtain q where q: "insert_js cmp x r = Inr q" "mset q = add_mset x (mset r)" "sorted_wrt P q"
    by blast
  have "sort_js cmp (x # xs) = Inr q" by (simp add: r(1) q(1))
  moreover have "mset q = mset (x # xs)" by (simp add: q(2) r(2))
  ultimately show ?case using q(3) by blast
qed


lemma identKey_inj: "identKey a = identKey b \<longleftrightarrow> a = b"
  by (cases a; cases b) (simp_all add: identKey_def)

lemma compareIdentifiers_key:
  "compareIdentifiers a b =
     (if identKey a = identKey b then 0 else if identKey a < identKey b then - 1 else 1)"
  by (cases a; cases b) (auto simp: identKey_def)

lemma comparePreLoop_key:
  "comparePreLoop xs ys =
     (if map identKey xs = map identKey ys then 0
      else if map identKey xs < map identKey ys then - 1 else 1)"
proof (induction xs ys rule: comparePreLoop.induct)
  case (4 a as b bs)
  then show ?case
    by (auto simp: identKey_inj compareIdentifiers_key)
qed simp_all

lemma comparePre_key:
  "comparePre x y =
     (let kx = ((if prerelease x = [] then 1 else 0 :: nat), map identKey (prerelease x));
          ky = ((if prerelease y = [] then 1 else 0 :: nat), map identKey (prerelease y))
      in if kx = ky then 0 else if kx < ky then - 1 else 1)"
  by (auto simp: comparePre_def comparePreLoop_key Let_def)

lemma compareMain_key:
  "compareMain x y =
     (let kx = (major x, minor x, patch x); ky = (major y, minor y, patch y)
      in if kx = ky then 0 else if kx < ky then - 1 else 1)"
  by (auto simp: compareMain_def compareNum_def Let_def)

lemma compare_key:
  "compare x y = (if verKey x = verKey y then 0 else if verKey x < verKey y then - 1 else 1)"
  unfolding compare_def compareMain_key comparePre_key verKey_def Let_def
  by auto

lemma compare_le_key: "compare x y \<le> 0 \<longleftrightarrow> verKey x \<le> verKey y"
  by (auto simp: compare_key)

lemma compare_below_key: "compare x y = - 1 \<longleftrightarrow> verKey x < verKey y"
  by (auto simp: compare_key)

lemma rcompare_valid:
  assumes "valid a" and "valid b"
  shows "\<exists>c. rcompare a b = Inr c \<and> (c \<le> 0 \<longleftrightarrow> strKey b \<le> strKey a)"
proof -
  from assms obtain x y where "parse a = Some x" "parse b = Some y"
    by (auto simp: valid_def)
  then show ?thesis
    by (simp add: rcompare_def strKey_def compare_le_key)
qed

lemma precedes_key: "valid a \<Longrightarrow> valid b \<Longrightarrow> precedes a b \<longleftrightarrow> strKey b \<le> strKey a"
  using rcompare_valid[of a b] by (auto simp: precedes_def)

lemma sort_js_rcompare:
  assumes "\<And>v. v \<in> set xs \<Longrightarrow> valid v"
  shows "\<exists>r. sort_js rcompare xs = Inr r \<and> mset r = mset xs
             \<and> sorted_wrt (\<lambda>a b. strKey b \<le> strKey a) r"
proof (rule sort_js_sorted)
  fix a b assume "a \<in> set xs" "b \<in> set xs"
  then have "valid a" "valid b" using assms by simp_all
  then show "\<exists>c. rcompare a b = Inr c \<and> (c \<le> 0) = (strKey b \<le> strKey a)"
    by (rule rcompare_valid)
  show "strKey b \<le> strKey a \<or> strKey a \<le> strKey b"
    by (rule linear)
next
  fix a b c :: string
  assume "strKey b \<le> strKey a" "strKey c \<le> strKey b"
  then show "strKey c \<le> strKey a" by (rule order_trans[rotated])
qed



lemma mset_insertBefore: "mset (insertBefore cmp x ys) = add_mset x (mset ys)"
  by (induction ys) simp_all


lemma mset_insertionSort: "mset (insertionSort cmp xs) = mset xs"
  by (induction xs) (simp_all add: mset_insertBefore)


lemma insertionSort_rearranges: "rearranges insertionSort"
  by (simp add: rearranges_def mset_insertionSort)

















section \<open>Resolution: general facts\<close>

lemma rangeTest_valid: "rangeTest t v \<Longrightarrow> valid v"
  by (auto simp: rangeTest_def valid_def split: option.splits)

lemma isBelow_key: "valid m \<Longrightarrow> valid v \<Longrightarrow> isBelow m v \<longleftrightarrow> strKey m < strKey v"
  by (auto simp: isBelow_def valid_def strKey_def compare_below_key)

lemma valid_nonempty: "valid v \<Longrightarrow> v \<noteq> []"
  by (auto simp: valid_def parse_def Let_def)

lemma maxSatisfyingLoop_spec:
  assumes "case mx of None \<Rightarrow> True | Some m \<Rightarrow> rangeTest t m"
  shows "case maxSatisfyingLoop t vs mx of
           None \<Rightarrow> mx = None \<and> (\<forall>v\<in>set vs. \<not> rangeTest t v)
         | Some r \<Rightarrow> rangeTest t r \<and> (r \<in> set vs \<or> mx = Some r)
                     \<and> (\<forall>v\<in>set vs. rangeTest t v \<longrightarrow> strKey v \<le> strKey r)
                     \<and> (\<forall>m. mx = Some m \<longrightarrow> strKey m \<le> strKey r)"
  using assms
proof (induction vs arbitrary: mx)
  case Nil
  then show ?case by (cases mx) simp_all
next
  case (Cons v vs)
  show ?case
  proof (cases "rangeTest t v")
    case False
    then have eq: "maxSatisfyingLoop t (v # vs) mx = maxSatisfyingLoop t vs mx" by simp
    show ?thesis unfolding eq using Cons.IH[OF Cons.prems] False
      by (auto split: option.splits)
  next
    case True
    then have vv: "valid v" by (rule rangeTest_valid)
    show ?thesis
    proof (cases mx)
      case None
      then have eq: "maxSatisfyingLoop t (v # vs) mx = maxSatisfyingLoop t vs (Some v)"
        using True by simp
      have "case Some v of None \<Rightarrow> True | Some m \<Rightarrow> rangeTest t m" using True by simp
      from Cons.IH[OF this] show ?thesis unfolding eq using None True
        by (auto split: option.splits)
    next
      case (Some m)
      then have tm: "rangeTest t m" using Cons.prems by simp
      then have vm: "valid m" by (rule rangeTest_valid)
      then have ne: "m \<noteq> []" by (rule valid_nonempty)
      show ?thesis
      proof (cases "isBelow m v")
        case below: True
        then have lt: "strKey m < strKey v" using isBelow_key[OF vm vv] by simp
        have eq: "maxSatisfyingLoop t (v # vs) mx = maxSatisfyingLoop t vs (Some v)"
          using True Some below by simp
        have "case Some v of None \<Rightarrow> True | Some m \<Rightarrow> rangeTest t m" using True by simp
        from Cons.IH[OF this] show ?thesis unfolding eq using Some True lt
          by (auto split: option.splits)
      next
        case notbelow: False
        then have ge: "strKey v \<le> strKey m" using isBelow_key[OF vm vv] by simp
        have eq: "maxSatisfyingLoop t (v # vs) mx = maxSatisfyingLoop t vs (Some m)"
          using True Some notbelow ne by simp
        have "case Some m of None \<Rightarrow> True | Some m \<Rightarrow> rangeTest t m" using tm by simp
        from Cons.IH[OF this] show ?thesis unfolding eq using Some True ge
          by (auto split: option.splits)
      qed
    qed
  qed
qed

lemma maxSatisfying_none: "mkRange rng = None \<Longrightarrow> maxSatisfying mkRange vs rng = Null"
  by (simp add: maxSatisfying_def)

lemma maxSatisfying_unsatisfied:
  assumes "mkRange rng = Some t" and "\<forall>v\<in>set vs. \<not> rangeTest t v"
  shows "maxSatisfying mkRange vs rng = Null"
proof -
  have "case maxSatisfyingLoop t vs None of
           None \<Rightarrow> None = (None :: string option) \<and> (\<forall>v\<in>set vs. \<not> rangeTest t v)
         | Some r \<Rightarrow> rangeTest t r \<and> (r \<in> set vs \<or> None = Some r)
                     \<and> (\<forall>v\<in>set vs. rangeTest t v \<longrightarrow> strKey v \<le> strKey r)
                     \<and> (\<forall>m. None = Some m \<longrightarrow> strKey m \<le> strKey r)"
    by (rule maxSatisfyingLoop_spec) simp
  then have "maxSatisfyingLoop t vs None = None"
    using assms(2) by (cases "maxSatisfyingLoop t vs None") auto
  then show ?thesis using assms(1) by (simp add: maxSatisfying_def)
qed

lemma maxSatisfying_highest:
  assumes "mkRange rng = Some t" and "\<exists>v\<in>set vs. rangeTest t v"
  shows "\<exists>r. maxSatisfying mkRange vs rng = String r \<and> r \<in> set vs \<and> rangeTest t r
             \<and> (\<forall>v\<in>set vs. rangeTest t v \<longrightarrow> precedes r v)"
proof -
  have spec: "case maxSatisfyingLoop t vs None of
           None \<Rightarrow> None = (None :: string option) \<and> (\<forall>v\<in>set vs. \<not> rangeTest t v)
         | Some r \<Rightarrow> rangeTest t r \<and> (r \<in> set vs \<or> None = Some r)
                     \<and> (\<forall>v\<in>set vs. rangeTest t v \<longrightarrow> strKey v \<le> strKey r)
                     \<and> (\<forall>m. None = Some m \<longrightarrow> strKey m \<le> strKey r)"
    by (rule maxSatisfyingLoop_spec) simp
  show ?thesis
  proof (cases "maxSatisfyingLoop t vs None")
    case None
    then show ?thesis using spec assms(2) by simp
  next
    case (Some r)
    then have r: "rangeTest t r" "r \<in> set vs"
      "\<forall>v\<in>set vs. rangeTest t v \<longrightarrow> strKey v \<le> strKey r"
      using spec by simp_all
    have "\<forall>v\<in>set vs. rangeTest t v \<longrightarrow> precedes r v"
    proof (intro ballI impI)
      fix v assume "v \<in> set vs" "rangeTest t v"
      then have "strKey v \<le> strKey r" "valid v" using r(3) rangeTest_valid by auto
      then show "precedes r v" using precedes_key[of r v] rangeTest_valid[OF r(1)] by simp
    qed
    moreover have "maxSatisfying mkRange vs rng = String r"
      using assms(1) Some by (simp add: maxSatisfying_def)
    ultimately show ?thesis using r(1,2) by blast
  qed
qed

lemma candidates_spec:
  "\<exists>vs. candidates md = Inr vs \<and> mset vs = mset (filter isRelease (versions md))
        \<and> sorted_wrt precedes vs"
proof -
  have "\<exists>r. sort_js rcompare (filter isRelease (versions md)) = Inr r
            \<and> mset r = mset (filter isRelease (versions md))
            \<and> sorted_wrt (\<lambda>a b. strKey b \<le> strKey a) r"
    by (rule sort_js_rcompare) (simp add: isRelease_def)
  then obtain r where r: "sort_js rcompare (filter isRelease (versions md)) = Inr r"
    "mset r = mset (filter isRelease (versions md))"
    "sorted_wrt (\<lambda>a b. strKey b \<le> strKey a) r" by blast
  have "set_mset (mset r) = set_mset (mset (filter isRelease (versions md)))"
    by (simp only: r(2))
  then have "set r = set (filter isRelease (versions md))" by (simp only: set_mset_mset)
  then have v: "\<forall>x\<in>set r. valid x" by (simp add: isRelease_def)
  have "sorted_wrt precedes r"
    by (rule sorted_wrt_mono_rel[OF _ r(3)]) (simp add: precedes_key v)
  then show ?thesis using r(1,2) by (simp add: candidates_def)
qed

lemma candidates_set:
  assumes "candidates md = Inr vs"
  shows "set vs = {v \<in> set (versions md). isRelease v}"
proof -
  from candidates_spec[of md] assms have "mset vs = mset (filter isRelease (versions md))"
    by simp
  then have "set_mset (mset vs) = set_mset (mset (filter isRelease (versions md)))"
    by (simp only:)
  then show ?thesis by simp
qed

lemma resolve_exact:
  assumes "version \<in> set (versions md)"
  shows "getResolvedVersion mkRange md version = Inr (String version)"
proof -
  obtain vs where "candidates md = Inr vs" using candidates_spec[of md] by blast
  then show ?thesis using assms by (simp add: getResolvedVersion_def)
qed

lemma resolve_tag:
  assumes "version \<notin> set (versions md)" and "tags md = Object m" and "m version = Some t"
  shows "getResolvedVersion mkRange md version = Inr (String t)"
proof -
  obtain vs where "candidates md = Inr vs" using candidates_spec[of md] by blast
  then show ?thesis using assms by (simp add: getResolvedVersion_def ownProperty_def)
qed

lemma firstOrNull_valid:
  assumes "\<forall>v\<in>set vs. valid v"
  shows "firstOrNull vs = (case vs of [] \<Rightarrow> Null | v # _ \<Rightarrow> String v)"
proof (cases vs)
  case Nil
  then show ?thesis by (simp add: firstOrNull_def)
next
  case (Cons v rest)
  then have "v \<noteq> []" using assms valid_nonempty by simp
  then show ?thesis using Cons by (simp add: firstOrNull_def)
qed

lemma resolve_latest:
  assumes "version \<notin> set (versions md)" and "ownProperty (tags md) version = Inr None"
    and "version = [] \<or> version = ''latest''"
  shows "\<exists>vs. candidates md = Inr vs \<and> mset vs = mset (filter isRelease (versions md))
           \<and> sorted_wrt precedes vs
           \<and> getResolvedVersion mkRange md version
               = Inr (case vs of [] \<Rightarrow> Null | v # _ \<Rightarrow> String v)"
proof -
  obtain vs where vs: "candidates md = Inr vs"
    "mset vs = mset (filter isRelease (versions md))" "sorted_wrt precedes vs"
    using candidates_spec[of md] by blast
  have "set vs = {v \<in> set (versions md). isRelease v}" by (rule candidates_set[OF vs(1)])
  then have "\<forall>v\<in>set vs. valid v" by (simp add: isRelease_def)
  then have f: "firstOrNull vs = (case vs of [] \<Rightarrow> Null | v # _ \<Rightarrow> String v)"
    by (rule firstOrNull_valid)
  have "getResolvedVersion mkRange md version = Inr (firstOrNull vs)"
    using assms vs(1) by (auto simp: getResolvedVersion_def)
  then show ?thesis using vs f by simp
qed

lemma resolve_range:
  assumes "version \<notin> set (versions md)" and "ownProperty (tags md) version = Inr None"
    and "version \<noteq> []" and "version \<noteq> ''latest''" and "candidates md = Inr vs"
  shows "getResolvedVersion mkRange md version = Inr (maxSatisfying mkRange vs version)"
  using assms by (simp add: getResolvedVersion_def)

lemma resolve_range_invalid:
  assumes "version \<notin> set (versions md)" and "ownProperty (tags md) version = Inr None"
    and "version \<noteq> []" and "version \<noteq> ''latest''" and "mkRange version = None"
  shows "getResolvedVersion mkRange md version = Inr Null"
proof -
  obtain vs where vs: "candidates md = Inr vs" using candidates_spec[of md] by blast
  show ?thesis
    using resolve_range[OF assms(1-4) vs] maxSatisfying_none[of mkRange version vs, OF assms(5)] by simp
qed

lemma resolve_range_unsatisfied:
  assumes "version \<notin> set (versions md)" and "ownProperty (tags md) version = Inr None"
    and "version \<noteq> []" and "version \<noteq> ''latest''" and "mkRange version = Some t"
    and "\<forall>v\<in>set (versions md). isRelease v \<longrightarrow> \<not> rangeTest t v"
  shows "getResolvedVersion mkRange md version = Inr Null"
proof -
  obtain vs where vs: "candidates md = Inr vs" using candidates_spec[of md] by blast
  have "set vs = {v \<in> set (versions md). isRelease v}" by (rule candidates_set[OF vs])
  then have "\<forall>v\<in>set vs. \<not> rangeTest t v" using assms(6) by simp
  then have "maxSatisfying mkRange vs version = Null"
    using maxSatisfying_unsatisfied[of mkRange version t vs] assms(5) by simp
  then show ?thesis using resolve_range[OF assms(1-4) vs] by simp
qed

lemma resolve_range_highest:
  assumes "version \<notin> set (versions md)" and "ownProperty (tags md) version = Inr None"
    and "version \<noteq> []" and "version \<noteq> ''latest''" and "mkRange version = Some t"
    and "\<exists>v\<in>set (versions md). isRelease v \<and> rangeTest t v"
  shows "\<exists>r. getResolvedVersion mkRange md version = Inr (String r)
            \<and> r \<in> set (versions md) \<and> isRelease r \<and> rangeTest t r
            \<and> (\<forall>v\<in>set (versions md). isRelease v \<and> rangeTest t v \<longrightarrow> precedes r v)"
proof -
  obtain vs where vs: "candidates md = Inr vs" using candidates_spec[of md] by blast
  have s: "set vs = {v \<in> set (versions md). isRelease v}" by (rule candidates_set[OF vs])
  then have "\<exists>v\<in>set vs. rangeTest t v" using assms(6) by blast
  then have "\<exists>r. maxSatisfying mkRange vs version = String r \<and> r \<in> set vs \<and> rangeTest t r
             \<and> (\<forall>v\<in>set vs. rangeTest t v \<longrightarrow> precedes r v)"
    using maxSatisfying_highest[of mkRange version t vs] assms(5) by simp
  then obtain r where r: "maxSatisfying mkRange vs version = String r" "r \<in> set vs"
    "rangeTest t r" "\<forall>v\<in>set vs. rangeTest t v \<longrightarrow> precedes r v" by blast
  have "getResolvedVersion mkRange md version = Inr (String r)"
    using resolve_range[OF assms(1-4) vs] r(1) by simp
  moreover have "r \<in> set (versions md)" "isRelease r" using r(2) s by simp_all
  moreover have "\<forall>v\<in>set (versions md). isRelease v \<and> rangeTest t v \<longrightarrow> precedes r v"
    using r(4) s by simp
  ultimately show ?thesis using r(3) by blast
qed

lemma example_empty: "getResolvedVersion simpleRange exampleDocument [] = Inr (String ''2.0.0'')"
  unfolding exampleDocument_def by code_simp

lemma example_latest:
  "getResolvedVersion simpleRange exampleDocument ''latest'' = Inr (String ''2.0.0'')"
  unfolding exampleDocument_def by code_simp

lemma example_caret:
  "getResolvedVersion simpleRange exampleDocument ''^1.0.0'' = Inr (String ''1.9.9'')"
  unfolding exampleDocument_def by code_simp

lemma example_exact:
  "getResolvedVersion simpleRange exampleDocument ''1.9.9'' = Inr (String ''1.9.9'')"
  unfolding exampleDocument_def by code_simp

section \<open>Claims about version resolution\<close>

text \<open>
  C1, as the code has it. \<^verbatim>\<open>getResolvedVersion\<close> follows four steps in order, for every
  document, every requested version and every range constructor: (1) a version that is an
  entry of \<^verbatim>\<open>versions\<close> is returned unchanged; (2) else a key of the \<^verbatim>\<open>tags\<close> object gives
  the tagged version; (3) else the empty string and \<^verbatim>\<open>latest\<close> give the first of the
  candidates, which are the entries of \<^verbatim>\<open>versions\<close> that are valid releases without a
  pre-release part, sorted in descending precedence, or \<^verbatim>\<open>null\<close> when there is none;
  (4) else the version is read as a range and the result is the candidate of highest
  precedence that satisfies it, or \<^verbatim>\<open>null\<close> when the range is invalid or no candidate
  satisfies it. For the document of the example, the empty string and \<^verbatim>\<open>latest\<close> give
  \<^verbatim>\<open>2.0.0\<close>, \<^verbatim>\<open>1.9.9\<close> gives \<^verbatim>\<open>1.9.9\<close>, and \<^verbatim>\<open>^1.0.0\<close> gives \<^verbatim>\<open>1.9.9\<close>, since
  \<^verbatim>\<open>1.9.9\<close> is a release of the 1.x line.
\<close>

theorem getResolvedVersion_order:
  "(version \<in> set (versions md) \<longrightarrow>
      getResolvedVersion mkRange md version = Inr (String version))
   \<and> (version \<notin> set (versions md) \<and> tags md = Object m \<and> m version = Some tagged \<longrightarrow>
      getResolvedVersion mkRange md version = Inr (String tagged))
   \<and> (version \<notin> set (versions md) \<and> ownProperty (tags md) version = Inr None
        \<and> (version = [] \<or> version = ''latest'') \<longrightarrow>
      (\<exists>vs. candidates md = Inr vs \<and> mset vs = mset (filter isRelease (versions md))
         \<and> sorted_wrt precedes vs
         \<and> getResolvedVersion mkRange md version
             = Inr (case vs of [] \<Rightarrow> Null | v # _ \<Rightarrow> String v)))
   \<and> (version \<notin> set (versions md) \<and> ownProperty (tags md) version = Inr None
        \<and> version \<noteq> [] \<and> version \<noteq> ''latest'' \<longrightarrow>
      (mkRange version = None \<longrightarrow> getResolvedVersion mkRange md version = Inr Null)
      \<and> (\<forall>t. mkRange version = Some t \<longrightarrow>
            ((\<forall>v\<in>set (versions md). isRelease v \<longrightarrow> \<not> rangeTest t v) \<longrightarrow>
               getResolvedVersion mkRange md version = Inr Null)
            \<and> ((\<exists>v\<in>set (versions md). isRelease v \<and> rangeTest t v) \<longrightarrow>
               (\<exists>r. getResolvedVersion mkRange md version = Inr (String r)
                  \<and> r \<in> set (versions md) \<and> isRelease r \<and> rangeTest t r
                  \<and> (\<forall>v\<in>set (versions md).
                        isRelease v \<and> rangeTest t v \<longrightarrow> precedes r v)))))
   \<and> getResolvedVersion simpleRange exampleDocument [] = Inr (String ''2.0.0'')
   \<and> getResolvedVersion simpleRange exampleDocument ''latest'' = Inr (String ''2.0.0'')
   \<and> getResolvedVersion simpleRange exampleDocument ''^1.0.0'' = Inr (String ''1.9.9'')
   \<and> getResolvedVersion simpleRange exampleDocument ''1.9.9'' = Inr (String ''1.9.9'')"
proof (intro conjI impI allI)
  assume "version \<in> set (versions md)"
  then show "getResolvedVersion mkRange md version = Inr (String version)"
    by (rule resolve_exact)
next
  assume "version \<notin> set (versions md) \<and> tags md = Object m \<and> m version = Some tagged"
  then show "getResolvedVersion mkRange md version = Inr (String tagged)"
    using resolve_tag[of version md m tagged mkRange] by simp
next
  assume "version \<notin> set (versions md) \<and> ownProperty (tags md) version = Inr None
        \<and> (version = [] \<or> version = ''latest'')"
  then show "\<exists>vs. candidates md = Inr vs \<and> mset vs = mset (filter isRelease (versions md))
         \<and> sorted_wrt precedes vs
         \<and> getResolvedVersion mkRange md version
             = Inr (case vs of [] \<Rightarrow> Null | v # _ \<Rightarrow> String v)"
    using resolve_latest[of version md mkRange] by simp
next
  assume "version \<notin> set (versions md) \<and> ownProperty (tags md) version = Inr None
        \<and> version \<noteq> [] \<and> version \<noteq> ''latest''" and "mkRange version = None"
  then show "getResolvedVersion mkRange md version = Inr Null"
    using resolve_range_invalid[of version md mkRange] by simp
next
  fix t
  assume "version \<notin> set (versions md) \<and> ownProperty (tags md) version = Inr None
        \<and> version \<noteq> [] \<and> version \<noteq> ''latest''" and "mkRange version = Some t"
    and "\<forall>v\<in>set (versions md). isRelease v \<longrightarrow> \<not> rangeTest t v"
  then show "getResolvedVersion mkRange md version = Inr Null"
    using resolve_range_unsatisfied[of version md mkRange t] by simp
next
  fix t
  assume "version \<notin> set (versions md) \<and> ownProperty (tags md) version = Inr None
        \<and> version \<noteq> [] \<and> version \<noteq> ''latest''" and "mkRange version = Some t"
    and "\<exists>v\<in>set (versions md). isRelease v \<and> rangeTest t v"
  then show "\<exists>r. getResolvedVersion mkRange md version = Inr (String r)
                  \<and> r \<in> set (versions md) \<and> isRelease r \<and> rangeTest t r
                  \<and> (\<forall>v\<in>set (versions md).
                        isRelease v \<and> rangeTest t v \<longrightarrow> precedes r v)"
    using resolve_range_highest[of version md mkRange t] by simp
qed (rule example_empty example_latest example_caret example_exact)+

text \<open>
  The theorem at the document of the example: one requested version for each step, and a
  string that is no range.
\<close>

theorem getResolvedVersion_order_witness:
  "(''1.9.9'' \<in> set (versions exampleDocument)
      \<and> getResolvedVersion simpleRange exampleDocument ''1.9.9'' = Inr (String ''1.9.9''))
   \<and> (''latest'' \<notin> set (versions exampleDocument)
      \<and> tags exampleDocument = Object [''latest'' \<mapsto> ''2.0.0'']
      \<and> getResolvedVersion simpleRange exampleDocument ''latest'' = Inr (String ''2.0.0''))
   \<and> ([] \<notin> set (versions exampleDocument)
      \<and> ownProperty (tags exampleDocument) [] = Inr None
      \<and> (\<exists>vs. candidates exampleDocument = Inr vs \<and> sorted_wrt precedes vs
            \<and> getResolvedVersion simpleRange exampleDocument []
                = Inr (case vs of [] \<Rightarrow> Null | v # _ \<Rightarrow> String v)))
   \<and> (''^1.0.0'' \<notin> set (versions exampleDocument)
      \<and> ownProperty (tags exampleDocument) ''^1.0.0'' = Inr None
      \<and> rangeTest (the (simpleRange ''^1.0.0'')) ''1.9.9''
      \<and> (\<exists>r. getResolvedVersion simpleRange exampleDocument ''^1.0.0'' = Inr (String r)
            \<and> isRelease r
            \<and> (\<forall>v\<in>set (versions exampleDocument).
                  isRelease v \<and> rangeTest (the (simpleRange ''^1.0.0'')) v \<longrightarrow> precedes r v)))
   \<and> (''x y z'' \<notin> set (versions exampleDocument)
      \<and> simpleRange ''x y z'' = None
      \<and> getResolvedVersion simpleRange exampleDocument ''x y z'' = Inr Null)"
proof -
  have a1: "''1.9.9'' \<in> set (versions exampleDocument)"
    by (simp add: exampleDocument_def)
  have b1: "''latest'' \<notin> set (versions exampleDocument)"
    and b2: "tags exampleDocument = Object [''latest'' \<mapsto> ''2.0.0'']"
    and b3: "[''latest'' \<mapsto> ''2.0.0''] ''latest'' = Some ''2.0.0''"
    by (simp_all add: exampleDocument_def)
  have c1: "[] \<notin> set (versions exampleDocument)"
    and c2: "ownProperty (tags exampleDocument) [] = Inr None"
    by (simp_all add: exampleDocument_def ownProperty_def)
  have d1: "''^1.0.0'' \<notin> set (versions exampleDocument)"
    and d2: "ownProperty (tags exampleDocument) ''^1.0.0'' = Inr None"
    and d3: "''^1.0.0'' \<noteq> []" and d4: "''^1.0.0'' \<noteq> ''latest''"
    by (simp_all add: exampleDocument_def ownProperty_def)
  have d5: "simpleRange ''^1.0.0'' \<noteq> None" by code_simp
  then have d6: "simpleRange ''^1.0.0'' = Some (the (simpleRange ''^1.0.0''))" by simp
  have d7: "rangeTest (the (simpleRange ''^1.0.0'')) ''1.9.9''" by code_simp
  have d8: "isRelease ''1.9.9''" by code_simp
  have d9: "''1.9.9'' \<in> set (versions exampleDocument)" by (simp add: exampleDocument_def)
  have e1: "''x y z'' \<notin> set (versions exampleDocument)"
    and e2: "ownProperty (tags exampleDocument) ''x y z'' = Inr None"
    and e3: "''x y z'' \<noteq> []" and e4: "''x y z'' \<noteq> ''latest''"
    by (simp_all add: exampleDocument_def ownProperty_def)
  have e5: "simpleRange ''x y z'' = None" by code_simp
  have A: "getResolvedVersion simpleRange exampleDocument ''1.9.9'' = Inr (String ''1.9.9'')"
    using getResolvedVersion_order[of "''1.9.9''" exampleDocument simpleRange, THEN conjunct1] a1
    by blast
  have B: "getResolvedVersion simpleRange exampleDocument ''latest'' = Inr (String ''2.0.0'')"
    using getResolvedVersion_order[of "''latest''" exampleDocument simpleRange
        "[''latest'' \<mapsto> ''2.0.0'']" "''2.0.0''", THEN conjunct2, THEN conjunct1] b1 b2 b3
    by blast
  have C: "\<exists>vs. candidates exampleDocument = Inr vs \<and> sorted_wrt precedes vs
            \<and> getResolvedVersion simpleRange exampleDocument []
                = Inr (case vs of [] \<Rightarrow> Null | v # _ \<Rightarrow> String v)"
    using getResolvedVersion_order[of "[]" exampleDocument simpleRange,
        THEN conjunct2, THEN conjunct2, THEN conjunct1] c1 c2
    by blast
  have D: "\<exists>r. getResolvedVersion simpleRange exampleDocument ''^1.0.0'' = Inr (String r)
            \<and> isRelease r
            \<and> (\<forall>v\<in>set (versions exampleDocument).
                  isRelease v \<and> rangeTest (the (simpleRange ''^1.0.0'')) v \<longrightarrow> precedes r v)"
    using getResolvedVersion_order[of "''^1.0.0''" exampleDocument simpleRange,
        THEN conjunct2, THEN conjunct2, THEN conjunct2, THEN conjunct1]
      d1 d2 d3 d4 d6 d7 d8 d9 by blast
  have E: "getResolvedVersion simpleRange exampleDocument ''x y z'' = Inr Null"
    using getResolvedVersion_order[of "''x y z''" exampleDocument simpleRange,
        THEN conjunct2, THEN conjunct2, THEN conjunct2, THEN conjunct1]
      e1 e2 e3 e4 e5 by blast
  show ?thesis
    by (intro conjI A B C D E a1 b1 b2 c1 c2 d1 d2 d7 e1 e5)
qed

text \<open>
  The specification's example says that \<^verbatim>\<open>^1.0.0\<close> resolves to \<^verbatim>\<open>null\<close> on the example
  document. It resolves to \<^verbatim>\<open>1.9.9\<close>.
\<close>

theorem getResolvedVersion_caret_counterexample:
  "getResolvedVersion simpleRange exampleDocument ''^1.0.0'' = Inr (String ''1.9.9'')
   \<and> getResolvedVersion simpleRange exampleDocument ''^1.0.0'' \<noteq> Inr Null"
  by (simp add: example_caret)

lemma resolve_own_property:
  assumes "version \<notin> set (versions md)" and "ownProperty (tags md) version = Inr (Some t)"
  shows "getResolvedVersion mkRange md version = Inr t"
proof -
  obtain vs where "candidates md = Inr vs" using candidates_spec[of md] by blast
  then show ?thesis using assms by (simp add: getResolvedVersion_def)
qed

lemma resolve_undefined_tags:
  assumes "version \<notin> set (versions md)" and "tags md = Undefined"
  shows "getResolvedVersion mkRange md version = Inl TypeError"
proof -
  obtain vs where "candidates md = Inr vs" using candidates_spec[of md] by blast
  then show ?thesis using assms by (simp add: getResolvedVersion_def ownProperty_def)
qed

lemma maxSatisfying_cases:
  "maxSatisfying mkRange vs rng = Null \<or> (\<exists>s. maxSatisfying mkRange vs rng = String s)"
  by (simp add: maxSatisfying_def split: option.splits)

lemma firstOrNull_cases: "firstOrNull vs = Null \<or> (\<exists>s. firstOrNull vs = String s)"
  by (simp add: firstOrNull_def split: list.splits)

lemma resolve_object_total:
  assumes "tags md = Object m"
  shows "getResolvedVersion mkRange md version = Inr Null
         \<or> (\<exists>s. getResolvedVersion mkRange md version = Inr (String s))"
proof -
  obtain vs where vs: "candidates md = Inr vs" using candidates_spec[of md] by blast
  show ?thesis
  proof (cases "version \<in> set (versions md)")
    case True
    then show ?thesis using resolve_exact[of version md mkRange] by simp
  next
    case False
    show ?thesis
    proof (cases "m version")
      case (Some t)
      then show ?thesis using resolve_tag[OF False assms, of t mkRange] by simp
    next
      case None
      then have own: "ownProperty (tags md) version = Inr None"
        using assms by (simp add: ownProperty_def)
      show ?thesis
      proof (cases "version = ''latest'' \<or> version = []")
        case True
        then have "getResolvedVersion mkRange md version = Inr (firstOrNull vs)"
          using vs False own by (auto simp: getResolvedVersion_def)
        then show ?thesis using firstOrNull_cases[of vs] by auto
      next
        case False2: False
        then have "getResolvedVersion mkRange md version = Inr (maxSatisfying mkRange vs version)"
          using vs False own by (simp add: getResolvedVersion_def)
        then show ?thesis using maxSatisfying_cases[of mkRange vs version] by auto
      qed
    qed
  qed
qed

text \<open>
  C7. The claim: resolution returns a version string or \<^verbatim>\<open>null\<close> for every document and
  every requested version. On the code, the document of a GitHub repository carries the
  array \<^verbatim>\<open>[]\<close> as its \<^verbatim>\<open>tags\<close>, an array owns the property \<^verbatim>\<open>length\<close>, and the
  requested version \<^verbatim>\<open>length\<close> resolves to the number 0: for the repository whose only
  tag is \<^verbatim>\<open>v1.0.0\<close>, with any comparator, any sort that rearranges the array and any
  range constructor.
\<close>

theorem getResolvedVersion_length_of_array:
  "(rearranges arraySort \<longrightarrow>
      githubDocument arraySort rCompare [''v1.0.0'']
        = Inr \<lparr>tags = EmptyArray, versions = [''1.0.0'']\<rparr>)
   \<and> getResolvedVersion mkRange \<lparr>tags = EmptyArray, versions = [''1.0.0'']\<rparr> ''length''
       = Inr (Number 0)"
proof (intro conjI impI)
  assume "rearranges arraySort"
  then have "mset (arraySort rCompare [''1.0.0'']) = mset [''1.0.0'']"
    unfolding rearranges_def by blast
  then have "arraySort rCompare [''1.0.0''] = [''1.0.0'']" by simp
  then show "githubDocument arraySort rCompare [''v1.0.0'']
        = Inr \<lparr>tags = EmptyArray, versions = [''1.0.0'']\<rparr>"
    by (simp add: githubDocument_def stripV_def uniq_def)
next
  show "getResolvedVersion mkRange \<lparr>tags = EmptyArray, versions = [''1.0.0'']\<rparr> ''length''
       = Inr (Number 0)"
    by (rule resolve_own_property) (simp_all add: ownProperty_def)
qed

text \<open>
  The theorem with the sort and the comparator of the examples and the range fragment.
\<close>

theorem getResolvedVersion_length_of_array_witness:
  "githubDocument insertionSort reverseLexicographic [''v1.0.0'']
     = Inr \<lparr>tags = EmptyArray, versions = [''1.0.0'']\<rparr>
   \<and> getResolvedVersion simpleRange \<lparr>tags = EmptyArray, versions = [''1.0.0'']\<rparr> ''length''
       = Inr (Number 0)"
proof -
  note T = getResolvedVersion_length_of_array[where arraySort = insertionSort
      and rCompare = reverseLexicographic and mkRange = simpleRange]
  have a: "githubDocument insertionSort reverseLexicographic [''v1.0.0'']
     = Inr \<lparr>tags = EmptyArray, versions = [''1.0.0'']\<rparr>"
    by (rule T[THEN conjunct1, THEN mp]) (rule insertionSort_rearranges)
  have b: "getResolvedVersion simpleRange \<lparr>tags = EmptyArray, versions = [''1.0.0'']\<rparr> ''length''
       = Inr (Number 0)"
    by (rule T[THEN conjunct2])
  show ?thesis by (intro conjI a b)
qed



section \<open>Tags of a GitHub repository: general facts\<close>

lemma set_uniqFrom: "set (uniqFrom seen xs) = set xs - set seen"
  by (induction xs arbitrary: seen) auto

lemma distinct_uniqFrom: "distinct (uniqFrom seen xs)"
  by (induction xs arbitrary: seen) (auto simp: set_uniqFrom)


lemma set_uniq: "set (uniq xs) = set xs"
  by (simp add: uniq_def set_uniqFrom)

lemma distinct_uniq: "distinct (uniq xs)"
  by (simp add: uniq_def distinct_uniqFrom)


lemma stripped_names:
  "set (filter (\<lambda>v. v \<noteq> []) (map stripV names)) = {n \<in> stripV ` set names. n \<noteq> []}"
  by auto

lemma githubDocument_versions:
  assumes "rearranges arraySort"
  shows "\<exists>doc. githubDocument arraySort rCompare names = Inr doc \<and> tags doc = EmptyArray
         \<and> distinct (versions doc)
         \<and> set (versions doc) = {n \<in> stripV ` set names. n \<noteq> []}"
proof -
  let ?xs = "filter (\<lambda>v. v \<noteq> []) (map stripV names)"
  have "mset (arraySort rCompare ?xs) = mset ?xs"
    using assms by (simp add: rearranges_def)
  then have "set_mset (mset (arraySort rCompare ?xs)) = set_mset (mset ?xs)" by (simp only:)
  then have "set (arraySort rCompare ?xs) = set ?xs" by (simp only: set_mset_mset)
  then have "set (arraySort rCompare ?xs) = {n \<in> stripV ` set names. n \<noteq> []}"
    by (simp only: stripped_names)
  then show ?thesis by (simp add: githubDocument_def set_uniq distinct_uniq)
qed






lemma cyclicComparator_unsortable:
  assumes "mset vs = mset [''a'', ''b'', ''c'']"
  shows "\<not> sorted_wrt (\<lambda>a b. cyclicComparator a b \<le> 0) vs"
proof
  assume s: "sorted_wrt (\<lambda>a b. cyclicComparator a b \<le> 0) vs"
  have "size (mset vs) = size (mset [''a'', ''b'', ''c''])" by (simp only: assms)
  then have "length vs = Suc (Suc (Suc 0))" by simp
  then obtain x y z where v: "vs = [x, y, z]"
    by (auto simp: length_Suc_conv)
  have "set_mset (mset vs) = set_mset (mset [''a'', ''b'', ''c''])" by (simp only: assms)
  then have st: "set [x, y, z] = set [''a'', ''b'', ''c'']" by (simp only: v set_mset_mset)
  have o: "cyclicComparator x y \<le> 0" "cyclicComparator x z \<le> 0"
    using s by (simp_all add: v)
  have ac: "cyclicComparator ''a'' ''c'' = 1" and ba: "cyclicComparator ''b'' ''a'' = 1"
    and cb: "cyclicComparator ''c'' ''b'' = 1"
    by (simp_all add: cyclicComparator_def)
  have "x \<in> set [x, y, z]" by simp
  then have "x \<in> set [''a'', ''b'', ''c'']" by (simp only: st)
  then have "\<exists>w \<in> set [''a'', ''b'', ''c'']. w \<noteq> x \<and> cyclicComparator x w = 1"
    using ac ba cb by auto
  then obtain w where w: "w \<in> set [''a'', ''b'', ''c'']" "w \<noteq> x" "cyclicComparator x w = 1"
    by blast
  from w(1) have "w \<in> set [x, y, z]" by (simp only: st)
  then have "w = y \<or> w = z" using w(2) by auto
  then show False using o w(3) by auto
qed

section \<open>Claims about the tags of a GitHub repository\<close>




text \<open>
  C10. One leading \<^verbatim>\<open>v\<close> is cut off and no more: \<^verbatim>\<open>vv2.0\<close> becomes \<^verbatim>\<open>v2.0\<close>. A name
  that does not start with \<^verbatim>\<open>v\<close> is kept. With a sort that rearranges the array, the
  empty string is never among the versions, every other stripped name is, and a
  repository whose only tag is \<^verbatim>\<open>v\<close> has no version.
\<close>

theorem stripV_one_character:
  "stripV (CHR ''v'' # rest) = rest
   \<and> (\<forall>c. c \<noteq> CHR ''v'' \<longrightarrow> stripV (c # rest) = c # rest)
   \<and> stripV [] = []
   \<and> stripV ''vv2.0'' = ''v2.0''
   \<and> (rearranges arraySort \<longrightarrow>
        (\<exists>doc. githubDocument arraySort rCompare names = Inr doc \<and> [] \<notin> set (versions doc)
           \<and> (\<forall>n\<in>set names. stripV n \<noteq> [] \<longrightarrow> stripV n \<in> set (versions doc))))
   \<and> (rearranges arraySort \<longrightarrow>
        githubDocument arraySort rCompare [''v''] = Inr \<lparr>tags = EmptyArray, versions = []\<rparr>)"
proof (intro conjI impI)
  assume r: "rearranges arraySort"
  obtain doc where doc: "githubDocument arraySort rCompare names = Inr doc"
    "set (versions doc) = {n \<in> stripV ` set names. n \<noteq> []}"
    using githubDocument_versions[OF r, of rCompare names] by blast
  have "[] \<notin> set (versions doc)" by (simp add: doc(2))
  moreover have "\<forall>n\<in>set names. stripV n \<noteq> [] \<longrightarrow> stripV n \<in> set (versions doc)"
    by (simp add: doc(2))
  ultimately show "\<exists>doc. githubDocument arraySort rCompare names = Inr doc \<and> [] \<notin> set (versions doc)
          \<and> (\<forall>n\<in>set names. stripV n \<noteq> [] \<longrightarrow> stripV n \<in> set (versions doc))"
    using doc(1) by blast
next
  assume r: "rearranges arraySort"
  have "mset (arraySort rCompare []) = mset []"
    using r unfolding rearranges_def by blast
  then have "arraySort rCompare [] = []" by simp
  then show "githubDocument arraySort rCompare [''v''] = Inr \<lparr>tags = EmptyArray, versions = []\<rparr>"
    by (simp add: githubDocument_def stripV_def uniq_def)
qed (simp_all add: stripV_def)

text \<open>The theorem at the tags \<^verbatim>\<open>vv2.0\<close> and \<^verbatim>\<open>v\<close>, with the sort of the examples.\<close>

theorem stripV_one_character_witness:
  "stripV ''vv2.0'' = ''v2.0'' \<and> stripV ''2.0'' = ''2.0'' \<and> stripV ''v'' = []
   \<and> (\<exists>doc. githubDocument insertionSort reverseLexicographic [''vv2.0'', ''v''] = Inr doc
          \<and> [] \<notin> set (versions doc) \<and> ''v2.0'' \<in> set (versions doc))
   \<and> githubDocument insertionSort reverseLexicographic [''v'']
       = Inr \<lparr>tags = EmptyArray, versions = []\<rparr>"
proof -
  note T = stripV_one_character[of "''v2.0''" insertionSort reverseLexicographic "[''vv2.0'', ''v'']"]
  have a: "stripV ''vv2.0'' = ''v2.0''" using T[THEN conjunct1] by simp
  have b: "stripV ''2.0'' = ''2.0''"
    using stripV_one_character[of "''.0''" insertionSort reverseLexicographic "[]",
        THEN conjunct2, THEN conjunct1]
    by simp
  have c: "stripV ''v'' = []"
    using stripV_one_character[of "[]" insertionSort reverseLexicographic "[]", THEN conjunct1]
    by simp
  have "\<exists>doc. githubDocument insertionSort reverseLexicographic [''vv2.0'', ''v''] = Inr doc
          \<and> [] \<notin> set (versions doc)
          \<and> (\<forall>n\<in>set [''vv2.0'', ''v'']. stripV n \<noteq> [] \<longrightarrow> stripV n \<in> set (versions doc))"
    by (rule T[THEN conjunct2, THEN conjunct2, THEN conjunct2, THEN conjunct2, THEN conjunct1,
          THEN mp]) (rule insertionSort_rearranges)
  then obtain doc where doc: "githubDocument insertionSort reverseLexicographic [''vv2.0'', ''v''] = Inr doc"
    "[] \<notin> set (versions doc)"
    "\<forall>n\<in>set [''vv2.0'', ''v'']. stripV n \<noteq> [] \<longrightarrow> stripV n \<in> set (versions doc)"
    by (elim exE conjE)
  have "''v2.0'' \<in> set (versions doc)" using doc(3) a by simp
  then have d: "\<exists>doc. githubDocument insertionSort reverseLexicographic [''vv2.0'', ''v''] = Inr doc
          \<and> [] \<notin> set (versions doc) \<and> ''v2.0'' \<in> set (versions doc)"
    using doc(1,2) by blast
  have e: "githubDocument insertionSort reverseLexicographic [''v'']
       = Inr \<lparr>tags = EmptyArray, versions = []\<rparr>"
    by (rule T[THEN conjunct2, THEN conjunct2, THEN conjunct2, THEN conjunct2, THEN conjunct2,
          THEN mp]) (rule insertionSort_rearranges)
  show ?thesis by (intro conjI a b c d e)
qed

section \<open>The cache and the loaders: general facts\<close>




lemma cacheMiss_failure:
  "overrides r = [] \<Longrightarrow> outcome r = Inl e \<Longrightarrow>
     cacheMiss c now key r d = \<lparr>cache = c(key := None), loaderInvoked = True, settled = Inl e\<rparr>"
  by (simp add: cacheMiss_def)


lemma cacheMiss_success:
  "overrides r = [] \<Longrightarrow> outcome r = Inr x \<Longrightarrow>
     cacheMiss c now key r d =
       \<lparr>cache = c(key \<mapsto> Entry (Inr x) (now + d)), loaderInvoked = True, settled = Inr x\<rparr>"
  by (simp add: cacheMiss_def)







section \<open>Claims about failures of the GitHub request\<close>



section \<open>Metadata of an npm package: general facts\<close>










section \<open>Claims about the registry response\<close>






section \<open>Several registries: general facts\<close>











section \<open>Claims about several registries\<close>




section \<open>The file listing: general facts\<close>



lemma promiseRetry_retry:
  "fn n = Retry e \<Longrightarrow>
     promiseRetry fn n (Suc k) = (Suc (fst (promiseRetry fn (Suc n) k)), snd (promiseRetry fn (Suc n) k))"
  by (simp split: prod.splits)

lemma promiseRetry_exhausted: "fn n = Retry e \<Longrightarrow> promiseRetry fn n 0 = (1, Inl e)"
  by simp









section \<open>Claims about the file listing\<close>




end
